theory Spec2Isabelle
  imports Main "HOL-Library.Word"
begin

section \<open>Host values: strings, numbers, errors\<close>

text \<open>
  A string of the host is a sequence of 16-bit code units; \<open>length\<close> counts units.
  A \<open>Uint8Array\<close> is a sequence of 8-bit words. A \<open>number\<close> holding a whole value is
  an \<open>int\<close>; indices and lengths are natural numbers.
\<close>

type_synonym js_string = "16 word list"

type_synonym Uint8Array = "8 word list"

text \<open>A thrown value: \<open>new Error(message)\<close>, or the \<open>RangeError\<close> of a host function.\<close>

datatype js_error = Error js_string | RangeError

text \<open>The code units of a template-literal fragment written in ASCII.\<close>

definition lit :: "string \<Rightarrow> js_string" where
  "lit s = map (\<lambda>c. of_nat (of_char c)) s"

text \<open>
  The digits of a natural number in a radix of 2..36, lower case.
\<close>

definition digit_char :: "nat \<Rightarrow> char" where
  "digit_char d = ''0123456789abcdefghijklmnopqrstuvwxyz'' ! d"

function digits :: "nat \<Rightarrow> nat \<Rightarrow> string" where
  "digits radix n =
     (if radix < 2 \<or> n < radix then [digit_char n]
      else digits radix (n div radix) @ [digit_char (n mod radix)])"
  by pat_completeness auto
termination
  by (relation "measure (\<lambda>(radix, n). n)") auto

declare digits.simps [simp del]

text \<open>
  A number of the host is a double. A whole number below \<open>2 ^ 53\<close> is held exactly; a
  larger one stands for the double nearest to it, the even mantissa in a tie: with \<open>e\<close>
  the number of its binary digits less 53, quotient \<open>q\<close> and remainder \<open>r\<close> by \<open>2 ^ e\<close>, it
  is \<open>q * 2 ^ e\<close>, or \<open>(q + 1) * 2 ^ e\<close> when \<open>r\<close> is above half of \<open>2 ^ e\<close>, or is that
  half and \<open>q\<close> is odd. A result of \<open>2 ^ 1024\<close> or more is \<open>Infinity\<close>.
\<close>

definition round_to :: "nat \<Rightarrow> nat \<Rightarrow> nat \<Rightarrow> nat" where
  "round_to q r e =
     (if 2 ^ (e - 1) < r \<or> (r = 2 ^ (e - 1) \<and> odd q) then (q + 1) * 2 ^ e else q * 2 ^ e)"

definition round_at :: "nat \<Rightarrow> nat \<Rightarrow> nat" where
  "round_at v e = round_to (v div 2 ^ e) (v mod 2 ^ e) e"

definition to_double :: "nat \<Rightarrow> nat" where
  "to_double v = (if v < 2 ^ 53 then v else round_at v (length (digits 2 v) - 53))"

text \<open>
  \<open>Number::toString(x, 10)\<close> of ECMAScript for a double \<open>x\<close> of \<open>d\<close> decimal digits: the
  least \<open>k\<close> and a \<open>k\<close>-digit \<open>s\<close> such that \<open>s * 10 ^ (n - k)\<close> reads back as \<open>x\<close>; among
  several \<open>s\<close> the one closest to \<open>x\<close>, and the even one of two equally close.
  \<^item> \<open>fits\<close> is the condition on \<open>s\<close>, with \<open>p = 10 ^ (n - k)\<close>;
  \<^item> \<open>pick\<close> looks at the two \<open>k\<close>-digit candidates around \<open>x\<close>, \<open>lo\<close> and \<open>lo + 1\<close>, and
    \<open>nearer\<close> chooses between them when both fit;
  \<^item> \<open>shortest\<close> tries \<open>k = 1, 2, ...\<close> up to all \<open>d\<close> digits, with \<open>n = d\<close>;
  \<^item> \<open>n\<close> exceeds \<open>d\<close> only when \<open>10 ^ d\<close> itself reads back as \<open>x\<close>, and then \<open>s = 1\<close>.
  The result is the digits of \<open>s\<close> and \<open>n - k\<close> zeros when \<open>n \<le> 21\<close>; beyond, the exponent
  form: the first digit, a point and the other digits when there are any, then \<open>e+\<close> and
  \<open>n - 1\<close>.
\<close>

definition fits :: "nat \<Rightarrow> nat \<Rightarrow> nat \<Rightarrow> nat \<Rightarrow> bool" where
  "fits x p k s \<longleftrightarrow> 10 ^ (k - 1) \<le> s \<and> s < 10 ^ k \<and> to_double (s * p) = x"

definition nearer :: "nat \<Rightarrow> nat \<Rightarrow> nat \<Rightarrow> nat" where
  "nearer x p lo =
     (if x - lo * p < (lo + 1) * p - x then lo
      else if (lo + 1) * p - x < x - lo * p then lo + 1
      else if even lo then lo else lo + 1)"

definition pick_at :: "nat \<Rightarrow> nat \<Rightarrow> nat \<Rightarrow> nat \<Rightarrow> nat option" where
  "pick_at x p k lo =
     (if fits x p k lo then (if fits x p k (lo + 1) then Some (nearer x p lo) else Some lo)
      else if fits x p k (lo + 1) then Some (lo + 1)
      else None)"

definition pick :: "nat \<Rightarrow> nat \<Rightarrow> nat \<Rightarrow> nat option" where
  "pick x d k = pick_at x (10 ^ (d - k)) k (x div 10 ^ (d - k))"

function shortest :: "nat \<Rightarrow> nat \<Rightarrow> nat \<Rightarrow> nat \<times> nat" where
  "shortest x d k =
     (if d \<le> k then (x, d)
      else case pick x d k of
             Some s \<Rightarrow> (s, k)
           | None \<Rightarrow> shortest x d (k + 1))"
  by pat_completeness auto
termination
  by (relation "measure (\<lambda>(x, d, k). d - k)") auto

declare shortest.simps [simp del]

definition exponent_form :: "string \<Rightarrow> nat \<Rightarrow> string" where
  "exponent_form ds n =
     (case ds of
        [] \<Rightarrow> []
      | c # r \<Rightarrow> (if r = [] then [c] else c # CHR ''.'' # r) @ ''e+'' @ digits 10 (n - 1))"

definition render :: "nat \<times> nat \<Rightarrow> nat \<Rightarrow> string" where
  "render sk n =
     (if n \<le> 21 then digits 10 (fst sk) @ replicate (n - snd sk) CHR ''0''
      else exponent_form (digits 10 (fst sk)) n)"

definition decimal_with :: "nat \<Rightarrow> nat \<Rightarrow> string" where
  "decimal_with x d =
     (if to_double (10 ^ d) = x then render (1, 1) (d + 1) else render (shortest x d 1) d)"

definition decimal_of_double :: "nat \<Rightarrow> string" where
  "decimal_of_double x =
     (if 2 ^ 1024 \<le> x then ''Infinity'' else decimal_with x (length (digits 10 x)))"

definition shortest_decimal :: "nat \<Rightarrow> string" where
  "shortest_decimal v = decimal_of_double (to_double v)"

text \<open>
  \<open>Number.prototype.toString(radix)\<close> on a whole number, and the conversion \<open>${x}\<close> of a
  template literal, which is radix 10: an optional minus sign and the digits of the
  magnitude. Below \<open>2 ^ 53\<close> these are all its digits in the radix. From \<open>2 ^ 53\<close> on, radix
  10 prints the shortest digits that read back as the same double; the program calls
  the other radix it uses, 16, on bytes and code points only.
\<close>

definition number_digits :: "nat \<Rightarrow> nat \<Rightarrow> string" where
  "number_digits n radix =
     (if radix = 10 \<and> 2 ^ 53 \<le> n then shortest_decimal n else digits radix n)"

definition Number_toString :: "int \<Rightarrow> nat \<Rightarrow> string" where
  "Number_toString x radix =
     (if x < 0 then CHR ''-'' # number_digits (nat (- x)) radix
      else number_digits (nat x) radix)"


text \<open>\<open>String.prototype.toUpperCase\<close> on ASCII text: the letters a to z move to A to Z.\<close>

definition upper_char :: "char \<Rightarrow> char" where
  "upper_char c =
     (if 97 \<le> (of_char c :: nat) \<and> (of_char c :: nat) \<le> 122
      then char_of ((of_char c :: nat) - 32) else c)"

definition toUpperCase :: "string \<Rightarrow> string" where
  "toUpperCase s = map upper_char s"

text \<open>\<open>String.prototype.padStart(targetLength, padString)\<close> with a one-character pad.\<close>

definition padStart :: "string \<Rightarrow> nat \<Rightarrow> char \<Rightarrow> string" where
  "padStart s targetLength c = replicate (targetLength - length s) c @ s"

text \<open>
  \<open>String.fromCodePoint(...codePoints)\<close>: a \<open>RangeError\<close> for an argument that is not a
  whole number in \<open>0..0x10FFFF\<close> (\<open>undefined\<close>, a hole of an array, is \<open>None\<close> here); one
  code unit for a code point of the basic plane and a surrogate pair above it.
\<close>

definition code_units :: "nat \<Rightarrow> js_string" where
  "code_units cp =
     (if cp \<le> 0xFFFF then [of_nat cp]
      else [of_nat (0xD800 + (cp - 0x10000) div 0x400),
            of_nat (0xDC00 + (cp - 0x10000) mod 0x400)])"

fun fromCodePoint :: "int option list \<Rightarrow> js_error + js_string" where
  "fromCodePoint [] = Inr []"
| "fromCodePoint (None # rest) = Inl RangeError"
| "fromCodePoint (Some cp # rest) =
     (if cp < 0 \<or> cp > 0x10FFFF then Inl RangeError
      else case fromCodePoint rest of
             Inl e \<Rightarrow> Inl e
           | Inr s \<Rightarrow> Inr (code_units (nat cp) @ s))"

text \<open>
  \<open>String.prototype.codePointAt(pos)\<close>: \<open>undefined\<close> (\<open>None\<close>) past the end; the
  combined code point where a high surrogate is followed by a low surrogate; the code
  unit itself otherwise.
\<close>

definition codePointAt :: "js_string \<Rightarrow> nat \<Rightarrow> int option" where
  "codePointAt s pos =
     (if pos \<ge> length s then None
      else let first = uint (s ! pos) in
        if first < 0xD800 \<or> first > 0xDBFF \<or> pos + 1 = length s then Some first
        else let second = uint (s ! (pos + 1)) in
          if second < 0xDC00 \<or> second > 0xDFFF then Some first
          else Some ((first - 0xD800) * 0x400 + (second - 0xDC00) + 0x10000))"

text \<open>
  An assignment \<open>a[k] = v\<close>: an ordinary array grows (with holes) when \<open>k\<close> is past its
  end; a typed array ignores such a write, as \<open>list_update\<close> does.
\<close>

definition array_set :: "'a option list \<Rightarrow> nat \<Rightarrow> 'a \<Rightarrow> 'a option list" where
  "array_set a k v =
     (if k < length a then a[k := Some v]
      else a @ replicate (k - length a) None @ [Some v])"

section \<open>Options\<close>

text \<open>
  \<open>DecodeOptions\<close> and \<open>EncodeOptions\<close> are the same structural type: one optional field
  \<open>mode\<close> holding \<open>'replacement'\<close> or \<open>'fatal'\<close>. The \<open>options\<close> argument itself may be
  left out.
\<close>

datatype error_mode = replacement | fatal

record options =
  mode :: "error_mode option"

type_synonym DecodeOptions = options

type_synonym EncodeOptions = options

section \<open>decode\<close>

definition WINDOWS_1252_MAP :: "(int \<times> int) list" where
  "WINDOWS_1252_MAP =
    [(0x80, 0x20ac), (0x82, 0x201a), (0x83, 0x0192), (0x84, 0x201e), (0x85, 0x2026),
     (0x86, 0x2020), (0x87, 0x2021), (0x88, 0x02c6), (0x89, 0x2030), (0x8a, 0x0160),
     (0x8b, 0x2039), (0x8c, 0x0152), (0x8e, 0x017d), (0x91, 0x2018), (0x92, 0x2019),
     (0x93, 0x201c), (0x94, 0x201d), (0x95, 0x2022), (0x96, 0x2013), (0x97, 0x2014),
     (0x98, 0x02dc), (0x99, 0x2122), (0x9a, 0x0161), (0x9b, 0x203a), (0x9c, 0x0153),
     (0x9e, 0x017e), (0x9f, 0x0178)]"

text \<open>
  The body of the loop of \<open>decode\<close> for one element: the code point it stores in
  \<open>chars[charIndex++]\<close>, or the error it throws.
\<close>

definition decode_byte :: "error_mode \<Rightarrow> int \<Rightarrow> js_error + int" where
  "decode_byte m byte =
     (if byte < 0 \<or> byte > 0xff then
        (if m = fatal then
           Inl (Error (lit ''Invalid byte value: '' @ lit (Number_toString byte 10)
                         @ lit '' (must be 0-255)''))
         else Inr 0xfffd)
      else if byte < 0x80 then Inr byte
      else if byte \<le> 0x9f then
        (case map_of WINDOWS_1252_MAP byte of
           Some codePoint \<Rightarrow> Inr codePoint
         | None \<Rightarrow>
             (if m = fatal then
                Inl (Error (lit ''Invalid Windows-1252 byte: 0x''
                              @ lit (toUpperCase (Number_toString byte 16))))
              else Inr 0xfffd))
      else Inr byte)"

text \<open>
  The loop of \<open>decode\<close>. \<open>bytes\<close> is a \<open>number[]\<close> or a \<open>Uint8Array\<close> (whose elements
  are in 0..255); \<open>chars\<close> starts as \<open>new Array(length)\<close>, an array of holes; the loop
  returns \<open>chars\<close> and \<open>charIndex\<close> as they stand after the last element, or the error
  thrown on the way.
\<close>

function decode_loop ::
  "error_mode \<Rightarrow> int list \<Rightarrow> nat \<Rightarrow> int option list \<Rightarrow> nat
     \<Rightarrow> js_error + (int option list \<times> nat)" where
  "decode_loop m bytes i chars charIndex =
     (if i < length bytes then
        (case decode_byte m (bytes ! i) of
           Inl e \<Rightarrow> Inl e
         | Inr c \<Rightarrow> decode_loop m bytes (i + 1) (array_set chars charIndex c) (charIndex + 1))
      else Inr (chars, charIndex))"
  by pat_completeness auto
termination
  by (relation "measure (\<lambda>(m, bytes, i, chars, charIndex). length bytes - i)") auto

declare decode_loop.simps [simp del]

text \<open>
  \<open>options: DecodeOptions = {}\<close> and \<open>const { mode = 'replacement' } = options\<close>: the
  mode in force when the argument or its field is left out.
\<close>

definition decode_mode :: "DecodeOptions option \<Rightarrow> error_mode" where
  "decode_mode opts =
     (case opts of
        None \<Rightarrow> replacement
      | Some options \<Rightarrow> (case mode options of None \<Rightarrow> replacement | Some v \<Rightarrow> v))"

definition decode :: "int list \<Rightarrow> DecodeOptions option \<Rightarrow> js_error + js_string" where
  "decode bytes opts =
     (let m = decode_mode opts
      in case decode_loop m bytes 0 (replicate (length bytes) None) 0 of
           Inl e \<Rightarrow> Inl e
         | Inr (chars, charIndex) \<Rightarrow> fromCodePoint (take charIndex chars))"

text \<open>
  The call \<open>String.fromCodePoint(...chars.slice(0, charIndex))\<close> passes one argument per
  element. The standard puts no limit on the number of arguments of a call, and \<open>decode\<close>
  above is the function on such a host. An engine accepts only so many and throws a
  \<open>RangeError\<close> beyond: \<open>decode_on max_args\<close> is the function on an engine that accepts
  at most \<open>max_args\<close> arguments in that call.
\<close>

definition spread_fromCodePoint :: "nat \<Rightarrow> int option list \<Rightarrow> js_error + js_string" where
  "spread_fromCodePoint max_args args =
     (if max_args < length args then Inl RangeError else fromCodePoint args)"

definition decode_on :: "nat \<Rightarrow> int list \<Rightarrow> DecodeOptions option \<Rightarrow> js_error + js_string" where
  "decode_on max_args bytes opts =
     (let m = decode_mode opts
      in case decode_loop m bytes 0 (replicate (length bytes) None) 0 of
           Inl e \<Rightarrow> Inl e
         | Inr (chars, charIndex) \<Rightarrow> spread_fromCodePoint max_args (take charIndex chars))"

section \<open>encode\<close>

definition UNICODE_TO_WINDOWS_1252 :: "(int \<times> int) list" where
  "UNICODE_TO_WINDOWS_1252 =
    [(0x20ac, 0x80), (0x201a, 0x82), (0x0192, 0x83), (0x201e, 0x84), (0x2026, 0x85),
     (0x2020, 0x86), (0x2021, 0x87), (0x02c6, 0x88), (0x2030, 0x89), (0x0160, 0x8a),
     (0x2039, 0x8b), (0x0152, 0x8c), (0x017d, 0x8e), (0x2018, 0x91), (0x2019, 0x92),
     (0x201c, 0x93), (0x201d, 0x94), (0x2022, 0x95), (0x2013, 0x96), (0x2014, 0x97),
     (0x02dc, 0x98), (0x2122, 0x99), (0x0161, 0x9a), (0x203a, 0x9b), (0x0153, 0x9c),
     (0x017e, 0x9e), (0x0178, 0x9f)]"

text \<open>
  The body of the loop of \<open>encode\<close> for one code point: the number it stores in
  \<open>bytes[byteIndex++]\<close>, or the error it throws.
\<close>

definition encode_code_point :: "error_mode \<Rightarrow> int \<Rightarrow> js_error + int" where
  "encode_code_point m codePoint =
     (if codePoint < 0x80 then Inr codePoint
      else if codePoint \<ge> 0xa0 \<and> codePoint \<le> 0xff then Inr codePoint
      else
        (case map_of UNICODE_TO_WINDOWS_1252 codePoint of
           Some win1252Byte \<Rightarrow> Inr win1252Byte
         | None \<Rightarrow>
             (if m = fatal then
                (case fromCodePoint [Some codePoint] of
                   Inl e \<Rightarrow> Inl e
                 | Inr ch \<Rightarrow>
                     Inl (Error (lit ''Character '' @ lit [CHR 0x27] @ ch @ lit [CHR 0x27]
                                   @ lit '' (U+''
                                   @ lit (padStart (toUpperCase (Number_toString codePoint 16))
                                            4 CHR ''0'')
                                   @ lit '') '' @ lit ''cannot be encoded in Windows-1252'')))
              else Inr 0x3f)))"

text \<open>
  The loop of \<open>encode\<close>, over the units of \<open>str\<close> with \<open>bytes\<close> starting as
  \<open>new Uint8Array(length)\<close>; a store converts the number to 8 bits; the index moves one
  unit further after a code point above 0xFFFF. \<open>str.codePointAt(i)\<close> is a number for
  every \<open>i\<close> below the length; were it \<open>undefined\<close>, every comparison would be false
  and the table would have no entry, so the last branch would run (with
  \<open>String.fromCodePoint(undefined)\<close> throwing in fatal mode).
\<close>

function encode_loop ::
  "error_mode \<Rightarrow> js_string \<Rightarrow> nat \<Rightarrow> Uint8Array \<Rightarrow> nat \<Rightarrow> js_error + (Uint8Array \<times> nat)" where
  "encode_loop m str i bytes byteIndex =
     (if i < length str then
        (case codePointAt str i of
           None \<Rightarrow>
             (if m = fatal then Inl RangeError
              else encode_loop m str (i + 1) (bytes[byteIndex := 0x3f]) (byteIndex + 1))
         | Some codePoint \<Rightarrow>
             (case encode_code_point m codePoint of
                Inl e \<Rightarrow> Inl e
              | Inr b \<Rightarrow>
                  encode_loop m str (if codePoint > 0xffff then i + 1 + 1 else i + 1)
                    (bytes[byteIndex := word_of_int b]) (byteIndex + 1)))
      else Inr (bytes, byteIndex))"
  by pat_completeness auto
termination
  by (relation "measure (\<lambda>(m, str, i, bytes, byteIndex). length str - i)") auto

declare encode_loop.simps [simp del]

text \<open>\<open>options: EncodeOptions = {}\<close> and \<open>const { mode = 'fatal' } = options\<close>.\<close>

definition encode_mode :: "EncodeOptions option \<Rightarrow> error_mode" where
  "encode_mode opts =
     (case opts of
        None \<Rightarrow> fatal
      | Some options \<Rightarrow> (case mode options of None \<Rightarrow> fatal | Some v \<Rightarrow> v))"

definition encode :: "js_string \<Rightarrow> EncodeOptions option \<Rightarrow> js_error + Uint8Array" where
  "encode str opts =
     (let m = encode_mode opts
      in case encode_loop m str 0 (replicate (length str) 0) 0 of
           Inl e \<Rightarrow> Inl e
         | Inr (bytes, byteIndex) \<Rightarrow> Inr (take byteIndex bytes))"

section \<open>Code points of a string\<close>

text \<open>
  The scan of a string by code point, as the specification describes it: read one 16-bit
  unit; a high surrogate followed by a low surrogate is combined by the surrogate-pair
  formula into one code point and both units are passed; any other unit, an unpaired
  surrogate included, is one code point by itself.
\<close>

definition is_high_surrogate :: "16 word \<Rightarrow> bool" where
  "is_high_surrogate u \<longleftrightarrow> 0xD800 \<le> uint u \<and> uint u \<le> 0xDBFF"

definition is_low_surrogate :: "16 word \<Rightarrow> bool" where
  "is_low_surrogate u \<longleftrightarrow> 0xDC00 \<le> uint u \<and> uint u \<le> 0xDFFF"

fun code_points :: "js_string \<Rightarrow> int list" where
  "code_points [] = []"
| "code_points [u] = [uint u]"
| "code_points (u # v # rest) =
     (if is_high_surrogate u \<and> is_low_surrogate v
      then (0x10000 + (uint u - 0xD800) * 0x400 + (uint v - 0xDC00)) # code_points rest
      else uint u # code_points (v # rest))"

section \<open>Reading a numeral\<close>

text \<open>
  What a numeral written in a message denotes: the value of a digit character (0 to 9,
  then the letters in either case), of a digit string in a radix, and of a digit string
  with an optional minus sign.
\<close>

definition digit_value :: "char \<Rightarrow> nat" where
  "digit_value ch =
     (let k = (of_char ch :: nat)
      in if k \<le> 57 then k - 48 else if k \<le> 90 then k - 55 else k - 87)"

definition read_digits :: "nat \<Rightarrow> string \<Rightarrow> nat" where
  "read_digits radix s = foldl (\<lambda>a ch. radix * a + digit_value ch) 0 s"


section \<open>The loops as folds\<close>

text \<open>
  The result of running the loop body over a list of elements from left to right, stopping
  at the first error. The two loops are shown below to compute exactly this.
\<close>

fun decode_all :: "error_mode \<Rightarrow> int list \<Rightarrow> js_error + int list" where
  "decode_all m [] = Inr []"
| "decode_all m (byte # rest) =
     (case decode_byte m byte of
        Inl e \<Rightarrow> Inl e
      | Inr c \<Rightarrow> (case decode_all m rest of Inl e \<Rightarrow> Inl e | Inr cs \<Rightarrow> Inr (c # cs)))"

fun encode_all :: "error_mode \<Rightarrow> int list \<Rightarrow> js_error + Uint8Array" where
  "encode_all m [] = Inr []"
| "encode_all m (c # cs) =
     (case encode_code_point m c of
        Inl e \<Rightarrow> Inl e
      | Inr b \<Rightarrow> (case encode_all m cs of Inl e \<Rightarrow> Inl e | Inr bs \<Rightarrow> Inr (word_of_int b # bs)))"

section \<open>The loops compute the folds\<close>

lemma take_array_set:
  "k \<le> length a \<Longrightarrow> take (Suc k) (array_set a k v) = take k a @ [Some v]"
  by (auto simp: array_set_def take_Suc_conv_app_nth)

lemma length_array_set: "k \<le> length a \<Longrightarrow> Suc k \<le> length (array_set a k v)"
  by (auto simp: array_set_def)

lemma decode_loop_all:
  "charIndex \<le> length chars \<Longrightarrow>
   (case decode_loop m bytes i chars charIndex of
      Inl e \<Rightarrow> Inl e
    | Inr (chars', charIndex') \<Rightarrow> Inr (take charIndex' chars')) =
   (case decode_all m (drop i bytes) of
      Inl e \<Rightarrow> Inl e
    | Inr cs \<Rightarrow> Inr (take charIndex chars @ map Some cs))"
proof (induction m bytes i chars charIndex rule: decode_loop.induct)
  case (1 m bytes i chars charIndex)
  show ?case
  proof (cases "i < length bytes")
    case False
    then show ?thesis by (simp add: decode_loop.simps [of m bytes i])
  next
    case True
    then have d: "drop i bytes = bytes ! i # drop (Suc i) bytes"
      by (simp add: Cons_nth_drop_Suc)
    show ?thesis
    proof (cases "decode_byte m (bytes ! i)")
      case (Inl e)
      with True d show ?thesis by (simp add: decode_loop.simps [of m bytes i])
    next
      case (Inr c)
      have ih: "(case decode_loop m bytes (i + 1) (array_set chars charIndex c) (charIndex + 1) of
           Inl e \<Rightarrow> Inl e
         | Inr (chars', charIndex') \<Rightarrow> Inr (take charIndex' chars')) =
        (case decode_all m (drop (i + 1) bytes) of
           Inl e \<Rightarrow> Inl e
         | Inr cs \<Rightarrow> Inr (take (charIndex + 1) (array_set chars charIndex c) @ map Some cs))"
        using "1.IH" [OF True Inr] length_array_set [OF "1.prems"] by simp
      show ?thesis
        using True Inr d ih take_array_set [OF "1.prems", of c]
        by (simp add: decode_loop.simps [of m bytes i] split: sum.splits)
    qed
  qed
qed

lemma decode_eq:
  "decode bytes opts =
     (case decode_all (decode_mode opts) bytes of
        Inl e \<Rightarrow> Inl e
      | Inr cs \<Rightarrow> fromCodePoint (map Some cs))"
  using decode_loop_all [of 0 "replicate (length bytes) None" "decode_mode opts" bytes 0]
  by (simp add: decode_def Let_def split: sum.splits prod.splits)

lemma uint_unit_le: "uint (u :: 16 word) \<le> 0xFFFF"
  using uint_lt2p [of u] by simp

lemma codePointAt_code_points:
  assumes "i < length str"
  shows "\<exists>cp. codePointAt str i = Some cp \<and>
           code_points (drop i str) =
             cp # code_points (drop (if cp > 0xffff then i + 1 + 1 else i + 1) str)"
proof (cases "i + 1 = length str")
  case True
  then have "drop i str = [str ! i]"
    using assms Cons_nth_drop_Suc [of i str] by simp
  with True assms uint_unit_le [of "str ! i"] show ?thesis
    by (simp add: codePointAt_def Let_def)
next
  case False
  with assms have lt: "Suc i < length str" by simp
  have d: "drop i str = str ! i # str ! (Suc i) # drop (Suc (Suc i)) str"
    using assms lt by (simp add: Cons_nth_drop_Suc)
  have d1: "drop (Suc i) str = str ! (Suc i) # drop (Suc (Suc i)) str"
    using lt by (simp add: Cons_nth_drop_Suc)
  show ?thesis
    using assms False d d1 uint_unit_le [of "str ! i"]
    by (auto simp: codePointAt_def Let_def is_high_surrogate_def is_low_surrogate_def)
qed

lemma encode_loop_all:
  "byteIndex \<le> i \<Longrightarrow> length bytes = length str \<Longrightarrow>
   (case encode_loop m str i bytes byteIndex of
      Inl e \<Rightarrow> Inl e
    | Inr (bytes', byteIndex') \<Rightarrow> Inr (take byteIndex' bytes')) =
   (case encode_all m (code_points (drop i str)) of
      Inl e \<Rightarrow> Inl e
    | Inr bs \<Rightarrow> Inr (take byteIndex bytes @ bs))"
proof (induction m str i bytes byteIndex rule: encode_loop.induct)
  case (1 m str i bytes byteIndex)
  show ?case
  proof (cases "i < length str")
    case False
    then show ?thesis by (simp add: encode_loop.simps [of m str i])
  next
    case True
    from codePointAt_code_points [OF True] obtain cp where
      cp: "codePointAt str i = Some cp" and
      d: "code_points (drop i str) =
            cp # code_points (drop (if cp > 0xffff then i + 1 + 1 else i + 1) str)"
      by blast
    show ?thesis
    proof (cases "encode_code_point m cp")
      case (Inl e)
      with True cp d show ?thesis by (simp add: encode_loop.simps [of m str i])
    next
      case (Inr b)
      let ?i = "if cp > 0xffff then i + 1 + 1 else i + 1"
      let ?bytes = "bytes[byteIndex := word_of_int b]"
      have lt: "byteIndex < length bytes" using True "1.prems" by simp
      have ih: "(case encode_loop m str ?i ?bytes (byteIndex + 1) of
           Inl e \<Rightarrow> Inl e
         | Inr (bytes', byteIndex') \<Rightarrow> Inr (take byteIndex' bytes')) =
        (case encode_all m (code_points (drop ?i str)) of
           Inl e \<Rightarrow> Inl e
         | Inr bs \<Rightarrow> Inr (take (byteIndex + 1) ?bytes @ bs))"
        using "1.IH"(2) [OF True cp Inr] "1.prems" by simp
      have tk: "take (byteIndex + 1) ?bytes = take byteIndex bytes @ [word_of_int b]"
        using lt by (simp add: take_Suc_conv_app_nth)
      have step: "encode_loop m str i bytes byteIndex =
                    encode_loop m str ?i ?bytes (byteIndex + 1)"
        using True cp Inr by (simp add: encode_loop.simps [of m str i])
      show ?thesis
        unfolding step ih tk d using Inr by (simp split: sum.splits)
    qed
  qed
qed

lemma encode_eq: "encode str opts = encode_all (encode_mode opts) (code_points str)"
  using encode_loop_all [of 0 0 "replicate (length str) 0" str "encode_mode opts"]
  by (simp add: encode_def Let_def split: sum.splits prod.splits)

section \<open>One element at a time\<close>

lemma special_zone_cases:
  fixes b :: int
  assumes "0x80 \<le> b" "b \<le> 0x9f"
  shows "b \<in> set [0x80..0x9f]"
  using assms by (simp only: set_upto) simp

lemma decode_byte_special_range:
  "\<forall>b \<in> set [0x80..0x9f]. \<forall>c. decode_byte m b = Inr c \<longrightarrow>
     0 \<le> c \<and> c \<le> 0xFFFF \<and> (c < 0xD800 \<or> 0xDFFF < c)"
  by (simp add: decode_byte_def WINDOWS_1252_MAP_def)

lemma decode_byte_Inr_range:
  assumes "decode_byte m b = Inr c"
  shows "0 \<le> c \<and> c \<le> 0xFFFF \<and> (c < 0xD800 \<or> 0xDFFF < c)"
proof (cases "0x80 \<le> b \<and> b \<le> 0x9f")
  case False
  with assms show ?thesis
    by (auto simp: decode_byte_def split: if_splits)
next
  case True
  with special_zone_cases [of b] have "b \<in> set [0x80..0x9f]" by blast
  with decode_byte_special_range assms show ?thesis by blast
qed


lemma decode_special_defined:
  "\<forall>b \<in> set [0x80..0x9f]. b \<notin> {0x81, 0x8D, 0x8F, 0x90, 0x9D} \<longrightarrow>
    (\<exists>c. decode_byte m b = Inr c \<and> encode_code_point m' c = Inr b)"
  by (simp add: decode_byte_def WINDOWS_1252_MAP_def encode_code_point_def
        UNICODE_TO_WINDOWS_1252_def)

lemma roundtrip_unit:
  assumes "0 \<le> b" "b \<le> 255" "b \<notin> {0x81, 0x8D, 0x8F, 0x90, 0x9D}"
  shows "\<exists>c. decode_byte m b = Inr c \<and> encode_code_point m' c = Inr b"
proof (cases "0x80 \<le> b \<and> b \<le> 0x9f")
  case False
  with assms show ?thesis
    by (auto simp: decode_byte_def encode_code_point_def)
next
  case True
  with special_zone_cases [of b] have "b \<in> set [0x80..0x9f]" by blast
  with decode_special_defined assms(3) show ?thesis by blast
qed



lemma encode_code_point_replacement: "\<exists>b. encode_code_point replacement c = Inr b"
  by (simp add: encode_code_point_def split: option.splits)

lemma fromCodePoint_bmp:
  "\<forall>c \<in> set cs. 0 \<le> c \<and> c \<le> 0xFFFF \<Longrightarrow>
   fromCodePoint (map Some cs) = Inr (map word_of_int cs)"
  by (induction cs) (auto simp: code_units_def)

lemma replicate_small:
  "replicate 1 c = [c]" "replicate 2 c = [c, c]" "replicate 3 c = [c, c, c]"
  by (simp_all add: numeral_2_eq_2 numeral_3_eq_3)

lemmas render_simps =
  padStart_def toUpperCase_def upper_char_def Number_toString_def number_digits_def digits.simps digit_char_def char_of_eq_iff
  replicate_small

lemma decode_single:
  "decode [b] opts = (case decode_byte (decode_mode opts) b of Inl e \<Rightarrow> Inl e | Inr c \<Rightarrow> fromCodePoint [Some c])"
  by (simp add: decode_eq split: sum.splits)

lemma uint_unit: "0 \<le> c \<Longrightarrow> c \<le> 0xFFFF \<Longrightarrow> uint (word_of_int c :: 16 word) = c"
  by (simp add: uint_word_of_int)

section \<open>Whole inputs\<close>

lemma decode_all_Inr_iff:
  "decode_all m bytes = Inr cs \<longleftrightarrow> list_all2 (\<lambda>b c. decode_byte m b = Inr c) bytes cs"
proof (induction bytes arbitrary: cs)
  case Nil
  then show ?case by auto
next
  case (Cons b bytes)
  note IH = Cons.IH [symmetric]
  show ?case
    by (cases cs) (auto simp: IH split: sum.splits)
qed



lemma encode_all_Inr_iff:
  "encode_all m cs = Inr bs \<longleftrightarrow>
     list_all2 (\<lambda>c x. \<exists>b. encode_code_point m c = Inr b \<and> x = word_of_int b) cs bs"
proof (induction cs arbitrary: bs)
  case Nil
  then show ?case by auto
next
  case (Cons c cs)
  note IH = Cons.IH [symmetric]
  show ?case
    by (cases bs) (auto simp: IH split: sum.splits)
qed

lemma encode_all_first_error:
  "\<forall>x \<in> set pre. \<exists>b. encode_code_point m x = Inr b \<Longrightarrow> encode_code_point m c = Inl e \<Longrightarrow>
   encode_all m (pre @ c # post) = Inl e"
  by (induction pre) (auto split: sum.splits)

lemma encode_all_replacement:
  "\<exists>bs. encode_all replacement cs = Inr bs"
proof (induction cs)
  case Nil
  then show ?case by simp
next
  case (Cons c cs)
  with encode_code_point_replacement [of c] show ?case by auto
qed

lemma code_points_no_surrogate:
  "\<forall>u \<in> set s. \<not> is_high_surrogate u \<Longrightarrow> code_points s = map uint s"
  by (induction s rule: code_points.induct) auto

lemma code_points_range: "\<forall>c \<in> set (code_points s). 0 \<le> c \<and> c \<le> 0x10FFFF"
proof (induction s rule: code_points.induct)
  case 1
  then show ?case by simp
next
  case (2 u)
  then show ?case using uint_unit_le [of u] by simp
next
  case (3 u v rest)
  then show ?case using uint_unit_le [of u]
    by (auto simp: is_high_surrogate_def is_low_surrogate_def)
qed

lemma decode_success:
  assumes "decode_all (decode_mode opts) bytes = Inr cs"
  shows "decode bytes opts = Inr (map word_of_int cs) \<and> length cs = length bytes
         \<and> code_points (map word_of_int cs) = cs"
proof -
  from assms have l2: "list_all2 (\<lambda>b c. decode_byte (decode_mode opts) b = Inr c) bytes cs"
    by (simp add: decode_all_Inr_iff)
  then have len: "length cs = length bytes"
    by (simp add: list_all2_lengthD)
  have rng: "\<forall>c \<in> set cs. 0 \<le> c \<and> c \<le> 0xFFFF \<and> (c < 0xD800 \<or> 0xDFFF < c)"
  proof
    fix c assume "c \<in> set cs"
    then obtain i where "i < length cs" "cs ! i = c" by (auto simp: in_set_conv_nth)
    with l2 have "decode_byte (decode_mode opts) (bytes ! i) = Inr c"
      by (auto simp: list_all2_conv_all_nth)
    then show "0 \<le> c \<and> c \<le> 0xFFFF \<and> (c < 0xD800 \<or> 0xDFFF < c)"
      by (rule decode_byte_Inr_range)
  qed
  then have u: "\<forall>c \<in> set cs. uint (word_of_int c :: 16 word) = c"
    by (auto simp: uint_unit)
  have "\<forall>u \<in> set (map word_of_int cs :: js_string). \<not> is_high_surrogate u"
    using rng u by (auto simp: is_high_surrogate_def)
  then have "code_points (map word_of_int cs) = map uint (map word_of_int cs :: js_string)"
    by (rule code_points_no_surrogate)
  also have "\<dots> = cs" using u by (simp add: map_idI)
  finally have cp: "code_points (map word_of_int cs) = cs" .
  from rng have "fromCodePoint (map Some cs) = Inr (map word_of_int cs)"
    by (auto intro: fromCodePoint_bmp)
  with assms len cp show ?thesis by (simp add: decode_eq)
qed


lemma uint_byte: "0 \<le> b \<Longrightarrow> b \<le> 255 \<Longrightarrow> uint (word_of_int b :: 8 word) = b"
  by (simp add: uint_word_of_int)



lemma decode_fatal_defined_bytes:
  assumes "\<forall>b \<in> set bytes. 0 \<le> b \<and> b \<le> 255 \<and> b \<notin> {0x81, 0x8D, 0x8F, 0x90, 0x9D}"
  shows "\<exists>cs. decode_all m bytes = Inr cs"
  using assms
proof (induction bytes)
  case Nil
  then show ?case by simp
next
  case (Cons b bytes)
  then have "\<exists>c. decode_byte m b = Inr c"
    using roundtrip_unit [of b m m] by auto
  with Cons show ?case by auto
qed

section \<open>Numerals in messages\<close>

lemma lit_append: "lit (a @ b) = lit a @ lit b"
  by (simp add: lit_def)


lemma below_16: "d < 16 \<Longrightarrow> d \<in> set [0 :: nat, 1, 2, 3, 4, 5, 6, 7, 8, 9, 10, 11, 12, 13, 14, 15]"
  by simp arith


lemma upper_hex_digit_all:
  "\<forall>d \<in> set [0 :: nat, 1, 2, 3, 4, 5, 6, 7, 8, 9, 10, 11, 12, 13, 14, 15].
     digit_value (upper_char (digit_char d)) = d
      \<and> upper_char (digit_char d) \<in> set ''0123456789ABCDEF''
      \<and> (upper_char (digit_char d) = CHR ''0'' \<longrightarrow> d = 0)"
  by (simp add: digit_value_def digit_char_def upper_char_def char_of_eq_iff)


lemma upper_hex_digit_props:
  assumes "d < 16"
  shows "digit_value (upper_char (digit_char d)) = d"
    "upper_char (digit_char d) \<in> set ''0123456789ABCDEF''"
    "upper_char (digit_char d) = CHR ''0'' \<Longrightarrow> d = 0"
  using below_16 [OF assms] upper_hex_digit_all by blast+


lemma read_digits_snoc:
  "read_digits radix (s @ [ch]) = radix * read_digits radix s + digit_value ch"
  by (simp add: read_digits_def)

lemma read_digits_single: "read_digits radix [ch] = digit_value ch"
  by (simp add: read_digits_def)

lemma read_digits_zeros:
  "read_digits radix (replicate k CHR ''0'' @ s) = read_digits radix s"
proof -
  have z: "digit_value CHR ''0'' = 0" by (simp add: digit_value_def)
  have "foldl (\<lambda>a ch. radix * a + digit_value ch) 0 (replicate k CHR ''0'') = 0"
    by (induction k) (simp_all add: z)
  then show ?thesis by (simp add: read_digits_def)
qed


lemma upper_digits_hex:
  "read_digits 16 (toUpperCase (digits 16 n)) = n
   \<and> set (toUpperCase (digits 16 n)) \<subseteq> set ''0123456789ABCDEF''
   \<and> toUpperCase (digits 16 n) \<noteq> []
   \<and> (0 < n \<longrightarrow> hd (toUpperCase (digits 16 n)) \<noteq> CHR ''0'')"
proof (induction "16 :: nat" n rule: digits.induct)
  case (1 n)
  show ?case
  proof (cases "n < 16")
    case True
    then have "digits 16 n = [digit_char n]" by (subst digits.simps) simp
    with True show ?thesis
      using upper_hex_digit_props [OF True]
      by (auto simp: toUpperCase_def read_digits_single)
  next
    case False
    then have d: "digits 16 n = digits 16 (n div 16) @ [digit_char (n mod 16)]"
      by (subst digits.simps) simp
    have m: "n mod 16 < 16" by simp
    from False have pos: "0 < n div 16" by (simp add: div_greater_zero_iff)
    from False have ih: "read_digits 16 (toUpperCase (digits 16 (n div 16))) = n div 16
       \<and> set (toUpperCase (digits 16 (n div 16))) \<subseteq> set ''0123456789ABCDEF''
       \<and> toUpperCase (digits 16 (n div 16)) \<noteq> []
       \<and> (0 < n div 16 \<longrightarrow> hd (toUpperCase (digits 16 (n div 16))) \<noteq> CHR ''0'')"
      using "1.hyps" by simp
    have "read_digits 16 (toUpperCase (digits 16 n)) = n"
      using ih upper_hex_digit_props(1) [OF m]
      by (simp add: d toUpperCase_def read_digits_snoc)
    moreover have "set (toUpperCase (digits 16 n)) \<subseteq> set ''0123456789ABCDEF''"
      using ih upper_hex_digit_props(2) [OF m]
      by (simp add: d toUpperCase_def)
    moreover have "hd (toUpperCase (digits 16 n)) \<noteq> CHR ''0''"
      using ih pos by (simp add: d toUpperCase_def)
    ultimately show ?thesis by (simp add: d toUpperCase_def)
  qed
qed



lemma hex4:
  assumes "0 < c"
  shows "4 \<le> length (padStart (toUpperCase (Number_toString c 16)) 4 CHR ''0'')
    \<and> set (padStart (toUpperCase (Number_toString c 16)) 4 CHR ''0'') \<subseteq> set ''0123456789ABCDEF''
    \<and> read_digits 16 (padStart (toUpperCase (Number_toString c 16)) 4 CHR ''0'') = nat c
    \<and> (length (padStart (toUpperCase (Number_toString c 16)) 4 CHR ''0'') = 4
        \<or> hd (padStart (toUpperCase (Number_toString c 16)) 4 CHR ''0'') \<noteq> CHR ''0'')"
proof -
  let ?s = "toUpperCase (digits 16 (nat c))"
  from assms have s: "toUpperCase (Number_toString c 16) = ?s"
    by (simp add: Number_toString_def number_digits_def)
  from assms have pos: "0 < nat c" by simp
  note f = upper_digits_hex [of "nat c"]
  have 1: "4 \<le> length (padStart ?s 4 CHR ''0'')" by (simp add: padStart_def)
  have 2: "set (padStart ?s 4 CHR ''0'') \<subseteq> set ''0123456789ABCDEF''"
    using f by (auto simp: padStart_def)
  have 3: "read_digits 16 (padStart ?s 4 CHR ''0'') = nat c"
    using f by (simp add: padStart_def read_digits_zeros)
  have 4: "length (padStart ?s 4 CHR ''0'') = 4 \<or> hd (padStart ?s 4 CHR ''0'') \<noteq> CHR ''0''"
  proof (cases "length ?s < 4")
    case True
    then show ?thesis by (simp add: padStart_def)
  next
    case False
    then have "padStart ?s 4 CHR ''0'' = ?s" by (simp add: padStart_def)
    with f pos show ?thesis by simp
  qed
  from 1 2 3 4 show ?thesis unfolding s by blast
qed

lemma encode_table_keys:
  "\<forall>k \<in> set (map fst UNICODE_TO_WINDOWS_1252). 0x100 \<le> k \<and> k \<le> 0x2122"
  by (simp add: UNICODE_TO_WINDOWS_1252_def)

lemma encodable_Inr:
  assumes "d < 0x80 \<or> (0xA0 \<le> d \<and> d \<le> 0xFF) \<or> d \<in> set (map fst UNICODE_TO_WINDOWS_1252)"
  shows "\<exists>b. encode_code_point m d = Inr b"
proof (cases "d < 0x80 \<or> (0xA0 \<le> d \<and> d \<le> 0xFF)")
  case True
  then show ?thesis by (auto simp: encode_code_point_def)
next
  case False
  with assms have "d \<in> fst ` set UNICODE_TO_WINDOWS_1252" by auto
  then obtain w where "map_of UNICODE_TO_WINDOWS_1252 d = Some w"
    by (metis map_of_eq_None_iff not_Some_eq)
  with False show ?thesis by (auto simp: encode_code_point_def)
qed

lemma unencodable_result:
  assumes "\<not> c < 0x80" "\<not> (0xA0 \<le> c \<and> c \<le> 0xFF)"
    "c \<notin> set (map fst UNICODE_TO_WINDOWS_1252)" "c \<le> 0x10FFFF"
  shows "encode_code_point replacement c = Inr 0x3f"
    and "encode_code_point fatal c =
      Inl (Error (lit ''Character '' @ lit [CHR 0x27] @ code_units (nat c) @ lit [CHR 0x27]
        @ lit '' (U+'' @ lit (padStart (toUpperCase (Number_toString c 16)) 4 CHR ''0'')
        @ lit '') cannot be encoded in Windows-1252''))"
proof -
  from assms(3) have n: "map_of UNICODE_TO_WINDOWS_1252 c = None"
    by (simp add: map_of_eq_None_iff)
  with assms show "encode_code_point replacement c = Inr 0x3f"
    by (simp add: encode_code_point_def)
  have "lit '') cannot be encoded in Windows-1252''
          = lit '') '' @ lit ''cannot be encoded in Windows-1252''"
    by (simp add: lit_append [symmetric])
  with n assms show "encode_code_point fatal c =
      Inl (Error (lit ''Character '' @ lit [CHR 0x27] @ code_units (nat c) @ lit [CHR 0x27]
        @ lit '' (U+'' @ lit (padStart (toUpperCase (Number_toString c 16)) 4 CHR ''0'')
        @ lit '') cannot be encoded in Windows-1252''))"
    by (simp add: encode_code_point_def)
qed

lemma not_a_key:
  "(0x80 \<le> d \<and> d \<le> 0x9F) \<or> 0xD800 \<le> d \<Longrightarrow> d \<notin> set (map fst UNICODE_TO_WINDOWS_1252)"
  using encode_table_keys by fastforce

lemma encode_Cons_unencodable:
  assumes "code_points (s @ rest) = c # code_points rest"
    and "(0x80 \<le> c \<and> c \<le> 0x9F) \<or> 0xD800 \<le> c"
  shows "(\<exists>bs. encode rest (Some \<lparr>mode = Some replacement\<rparr>) = Inr bs
            \<and> encode (s @ rest) (Some \<lparr>mode = Some replacement\<rparr>) = Inr (0x3F # bs))
       \<and> (\<exists>e. encode (s @ rest) (Some \<lparr>mode = Some fatal\<rparr>) = Inl e)"
proof -
  have "c \<in> set (code_points (s @ rest))" by (simp add: assms(1))
  with code_points_range have le: "c \<le> 0x10FFFF" by blast
  from assms(2) have n: "\<not> c < 0x80" "\<not> (0xA0 \<le> c \<and> c \<le> 0xFF)" by auto
  note k = not_a_key [OF assms(2)]
  note u = unencodable_result [OF n k le]
  from encode_all_replacement obtain bs where "encode_all replacement (code_points rest) = Inr bs"
    by blast
  with u(1) have "encode rest (Some \<lparr>mode = Some replacement\<rparr>) = Inr bs
            \<and> encode (s @ rest) (Some \<lparr>mode = Some replacement\<rparr>) = Inr (0x3F # bs)"
    by (simp add: encode_eq encode_mode_def assms(1))
  moreover from u(2) have "\<exists>e. encode (s @ rest) (Some \<lparr>mode = Some fatal\<rparr>) = Inl e"
    by (simp add: encode_eq encode_mode_def assms(1))
  ultimately show ?thesis by blast
qed

lemmas encode_eval =
  encode_eq encode_mode_def is_high_surrogate_def is_low_surrogate_def
  encode_code_point_def UNICODE_TO_WINDOWS_1252_def code_units_def render_simps lit_def

section \<open>The lookup tables\<close>

text \<open>
  C8: the two tables are inverses of each other, entry by entry; each has exactly 27
  entries with pairwise distinct keys; no two distinct bytes of the decode table map to
  the same code point; and every key of the decode table lies in 0x80..0x9F.
\<close>

theorem tables_inverse:
  "(\<forall>(b, c) \<in> set WINDOWS_1252_MAP. map_of UNICODE_TO_WINDOWS_1252 c = Some b)
   \<and> (\<forall>(c, b) \<in> set UNICODE_TO_WINDOWS_1252. map_of WINDOWS_1252_MAP b = Some c)
   \<and> length WINDOWS_1252_MAP = 27 \<and> length UNICODE_TO_WINDOWS_1252 = 27
   \<and> distinct (map fst WINDOWS_1252_MAP) \<and> distinct (map fst UNICODE_TO_WINDOWS_1252)
   \<and> (\<forall>(b, c) \<in> set WINDOWS_1252_MAP. \<forall>(b', c') \<in> set WINDOWS_1252_MAP. b \<noteq> b' \<longrightarrow> c \<noteq> c')
   \<and> (\<forall>(b, c) \<in> set WINDOWS_1252_MAP. 0x80 \<le> b \<and> b \<le> 0x9F)"
  by (simp add: WINDOWS_1252_MAP_def UNICODE_TO_WINDOWS_1252_def)

theorem tables_inverse_witness:
  "(0x80, 0x20ac) \<in> set WINDOWS_1252_MAP \<and> (0x9f, 0x0178) \<in> set WINDOWS_1252_MAP
   \<and> map_of UNICODE_TO_WINDOWS_1252 0x20ac = Some 0x80
   \<and> map_of WINDOWS_1252_MAP 0x80 = Some 0x20ac
   \<and> (0x80 :: int) \<noteq> 0x9f \<and> (0x20ac :: int) \<noteq> 0x0178"
  using tables_inverse
  by (simp add: WINDOWS_1252_MAP_def UNICODE_TO_WINDOWS_1252_def)

section \<open>Default modes\<close>

text \<open>
  C9: a call of \<open>decode\<close> without options, or with options that leave \<open>mode\<close> out, is the
  call in replacement mode; a call of \<open>encode\<close> without options, or with options that
  leave \<open>mode\<close> out, is the call in fatal mode; the two defaults differ.
\<close>

theorem default_modes:
  "decode bytes None = decode bytes (Some \<lparr>mode = Some replacement\<rparr>)
   \<and> decode bytes (Some \<lparr>mode = None\<rparr>) = decode bytes (Some \<lparr>mode = Some replacement\<rparr>)
   \<and> encode str None = encode str (Some \<lparr>mode = Some fatal\<rparr>)
   \<and> encode str (Some \<lparr>mode = None\<rparr>) = encode str (Some \<lparr>mode = Some fatal\<rparr>)
   \<and> decode_mode None \<noteq> encode_mode None"
  by (simp add: decode_def encode_def decode_mode_def encode_mode_def)

section \<open>Decoding one byte\<close>

text \<open>
  C4: for a byte \<open>b\<close> in 0x00..0x7F or in 0xA0..0xFF, \<open>decode([b])\<close> under any options
  returns the string of one code unit whose numeric value is \<open>b\<close>.
\<close>

theorem decode_zone_identity:
  assumes "(0x00 \<le> b \<and> b \<le> 0x7F) \<or> (0xA0 \<le> b \<and> b \<le> 0xFF)"
  shows "\<exists>u. decode [b] opts = Inr [u] \<and> uint u = b"
proof -
  from assms have "decode_byte (decode_mode opts) b = Inr b"
    by (auto simp: decode_byte_def)
  moreover from assms have "uint (word_of_int b :: 16 word) = b"
    by (auto simp: uint_unit)
  ultimately show ?thesis using assms
    by (auto simp: decode_single code_units_def)
qed

theorem decode_zone_identity_witness:
  "((0x00 \<le> (0xE9 :: int) \<and> (0xE9 :: int) \<le> 0x7F) \<or> (0xA0 \<le> (0xE9 :: int) \<and> (0xE9 :: int) \<le> 0xFF))
   \<and> decode [0xE9] (Some \<lparr>mode = Some fatal\<rparr>) = Inr [0xE9]
   \<and> decode [0xE9] None = Inr [0xE9]"
  using decode_zone_identity [of "0xE9" "Some \<lparr>mode = Some fatal\<rparr>"]
  by (simp add: decode_single decode_mode_def decode_byte_def code_units_def)

section \<open>Replacement mode never fails\<close>



section \<open>Undefined bytes in fatal mode\<close>

text \<open>
  C3: \<open>decode\<close> in fatal mode on a single byte of 0x80..0x9F throws exactly for the
  five bytes 0x81, 0x8D, 0x8F, 0x90, 0x9D and returns a string for every other byte of the
  range; the message of each of the five errors ends in the byte as two upper-case
  hexadecimal digits after \<open>0x\<close>.
\<close>

theorem decode_fatal_special_zone:
  assumes "0x80 \<le> b" "b \<le> 0x9F"
  shows "((\<exists>e. decode [b] (Some \<lparr>mode = Some fatal\<rparr>) = Inl e)
            \<longleftrightarrow> b \<in> {0x81, 0x8D, 0x8F, 0x90, 0x9D})
   \<and> ((\<exists>s. decode [b] (Some \<lparr>mode = Some fatal\<rparr>) = Inr s)
            \<longleftrightarrow> b \<notin> {0x81, 0x8D, 0x8F, 0x90, 0x9D})
   \<and> decode [0x81] (Some \<lparr>mode = Some fatal\<rparr>)
       = Inl (Error (lit ''Invalid Windows-1252 byte: 0x81''))
   \<and> decode [0x8D] (Some \<lparr>mode = Some fatal\<rparr>)
       = Inl (Error (lit ''Invalid Windows-1252 byte: 0x8D''))
   \<and> decode [0x8F] (Some \<lparr>mode = Some fatal\<rparr>)
       = Inl (Error (lit ''Invalid Windows-1252 byte: 0x8F''))
   \<and> decode [0x90] (Some \<lparr>mode = Some fatal\<rparr>)
       = Inl (Error (lit ''Invalid Windows-1252 byte: 0x90''))
   \<and> decode [0x9D] (Some \<lparr>mode = Some fatal\<rparr>)
       = Inl (Error (lit ''Invalid Windows-1252 byte: 0x9D''))"
proof -
  let ?F = "Some \<lparr>mode = Some fatal\<rparr>"
  have msgs: "decode [0x81] ?F = Inl (Error (lit ''Invalid Windows-1252 byte: 0x81''))"
    "decode [0x8D] ?F = Inl (Error (lit ''Invalid Windows-1252 byte: 0x8D''))"
    "decode [0x8F] ?F = Inl (Error (lit ''Invalid Windows-1252 byte: 0x8F''))"
    "decode [0x90] ?F = Inl (Error (lit ''Invalid Windows-1252 byte: 0x90''))"
    "decode [0x9D] ?F = Inl (Error (lit ''Invalid Windows-1252 byte: 0x9D''))"
    by (simp_all add: decode_single decode_mode_def decode_byte_def WINDOWS_1252_MAP_def
        render_simps lit_def)
  have ok: "\<exists>s. decode [b] ?F = Inr s" if "b \<notin> {0x81, 0x8D, 0x8F, 0x90, 0x9D}"
  proof -
    from assms that have "\<forall>x \<in> set [b]. 0 \<le> x \<and> x \<le> 255 \<and> x \<notin> {0x81, 0x8D, 0x8F, 0x90, 0x9D}"
      by simp
    from decode_fatal_defined_bytes [OF this] obtain cs where
      "decode_all (decode_mode ?F) [b] = Inr cs" by blast
    from decode_success [OF this] show ?thesis by blast
  qed
  have bad: "\<exists>e. decode [b] ?F = Inl e" if "b \<in> {0x81, 0x8D, 0x8F, 0x90, 0x9D}"
    using that msgs by auto
  from ok bad msgs show ?thesis by (metis Inl_Inr_False)
qed

theorem decode_fatal_special_zone_witness:
  "(0x80 :: int) \<le> 0x81 \<and> (0x81 :: int) \<le> 0x9F \<and> (0x80 :: int) \<le> 0x80 \<and> (0x80 :: int) \<le> 0x9F
   \<and> decode [0x81] (Some \<lparr>mode = Some fatal\<rparr>)
       = Inl (Error (lit ''Invalid Windows-1252 byte: 0x81''))
   \<and> (0x81 :: int) \<in> {0x81, 0x8D, 0x8F, 0x90, 0x9D}
   \<and> decode [0x80] (Some \<lparr>mode = Some fatal\<rparr>) = Inr [0x20AC]
   \<and> (0x80 :: int) \<notin> {0x81, 0x8D, 0x8F, 0x90, 0x9D}"
  using decode_fatal_special_zone [of "0x81"] decode_fatal_special_zone [of "0x80"]
  by (simp add: decode_single decode_mode_def decode_byte_def WINDOWS_1252_MAP_def code_units_def)

section \<open>Round trip of one byte\<close>

text \<open>
  C1: for every byte \<open>b\<close> of 0..255 other than 0x81, 0x8D, 0x8F, 0x90, 0x9D, decoding
  \<open>[b]\<close> returns a string, and encoding that string returns \<open>[b]\<close>, whatever the options
  of either call.
\<close>

theorem roundtrip_single_byte:
  assumes "0 \<le> b" "b \<le> 255" "b \<notin> {0x81, 0x8D, 0x8F, 0x90, 0x9D}"
  shows "\<exists>s bs. decode [b] dopts = Inr s \<and> encode s eopts = Inr bs \<and> map uint bs = [b]"
proof -
  from roundtrip_unit [OF assms] obtain c where
    d: "decode_byte (decode_mode dopts) b = Inr c" and
    e: "encode_code_point (encode_mode eopts) c = Inr b"
    by blast
  from d have "decode_all (decode_mode dopts) [b] = Inr [c]" by simp
  from decode_success [OF this] have
    s: "decode [b] dopts = Inr [word_of_int c]" and
    cp: "code_points [word_of_int c :: 16 word] = [c]"
    by simp_all
  have "encode [word_of_int c] eopts = Inr [word_of_int b]"
    using e by (simp only: encode_eq cp) simp
  with s assms show ?thesis by (simp add: uint_byte)
qed

theorem roundtrip_single_byte_witness:
  "(0 :: int) \<le> 0x80 \<and> (0x80 :: int) \<le> 255 \<and> (0x80 :: int) \<notin> {0x81, 0x8D, 0x8F, 0x90, 0x9D}
   \<and> decode [0x80] None = Inr [0x20AC] \<and> encode [0x20AC] None = Inr [0x80]
   \<and> encode [0x20AC] (Some \<lparr>mode = Some replacement\<rparr>) = Inr [0x80]
   \<and> map uint [0x80 :: 8 word] = [0x80]"
  using roundtrip_single_byte [of "0x80" None None]
  by (simp add: decode_single decode_mode_def decode_byte_def WINDOWS_1252_MAP_def code_units_def
      encode_eq encode_mode_def encode_code_point_def UNICODE_TO_WINDOWS_1252_def)

section \<open>The bytes encode emits\<close>



section \<open>Elements outside 0..255\<close>



section \<open>Code points with no byte\<close>

text \<open>
  C7: let \<open>c\<close> be the code point at position \<open>k\<close> of a string, not below 0x80, not in
  0xA0..0xFF and not a key of the encode table. In fatal mode, when every earlier code
  point has a byte, \<open>encode\<close> throws the error whose message is \<open>Character '\<close>, the
  code units of \<open>c\<close>, \<open>' (U+\<close>, a numeral \<open>h\<close> and \<open>) cannot be encoded in Windows-1252\<close>,
  where \<open>h\<close> has at least four characters, all among 0-9 and A-F, reads in radix 16 as
  \<open>c\<close>, and has no leading zero beyond the fourth digit. In replacement mode \<open>encode\<close>
  returns one byte per code point, and the byte at position \<open>k\<close> is 0x3F. Every number
  in 0x80..0x9F, every surrogate and every number from 0x10000 on meets the three
  conditions on \<open>c\<close>.
\<close>

theorem encode_unencodable:
  assumes "k < length (code_points s)" and "c = code_points s ! k"
    and "\<not> c < 0x80" and "\<not> (0xA0 \<le> c \<and> c \<le> 0xFF)"
    and "c \<notin> set (map fst UNICODE_TO_WINDOWS_1252)"
  shows "((\<forall>j < k. code_points s ! j < 0x80
              \<or> (0xA0 \<le> code_points s ! j \<and> code_points s ! j \<le> 0xFF)
              \<or> code_points s ! j \<in> set (map fst UNICODE_TO_WINDOWS_1252)) \<longrightarrow>
          (\<exists>h. encode s (Some \<lparr>mode = Some fatal\<rparr>)
                  = Inl (Error (lit ''Character '' @ lit [CHR 0x27] @ code_units (nat c)
                      @ lit [CHR 0x27] @ lit '' (U+'' @ lit h
                      @ lit '') cannot be encoded in Windows-1252''))
               \<and> 4 \<le> length h \<and> set h \<subseteq> set ''0123456789ABCDEF''
               \<and> int (read_digits 16 h) = c \<and> (length h = 4 \<or> hd h \<noteq> CHR ''0'')))
    \<and> (\<exists>bs. encode s (Some \<lparr>mode = Some replacement\<rparr>) = Inr bs
            \<and> length bs = length (code_points s) \<and> bs ! k = 0x3F)
    \<and> (\<forall>d. (0x80 \<le> d \<and> d \<le> 0x9F) \<or> (0xD800 \<le> d \<and> d \<le> 0xDFFF) \<or> 0x10000 \<le> d \<longrightarrow>
          \<not> d < 0x80 \<and> \<not> (0xA0 \<le> d \<and> d \<le> 0xFF)
          \<and> d \<notin> set (map fst UNICODE_TO_WINDOWS_1252))"
proof (rule conjI [OF _ conjI])
  let ?F = "Some \<lparr>mode = Some fatal\<rparr>"
  let ?cps = "code_points s"
  let ?h = "padStart (toUpperCase (Number_toString c 16)) 4 CHR ''0''"
  from assms(1,2) have "c \<in> set ?cps" by simp
  with code_points_range have le: "c \<le> 0x10FFFF" by blast
  from assms(3) have pos: "0 < c" by simp
  show "(\<forall>j < k. ?cps ! j < 0x80 \<or> (0xA0 \<le> ?cps ! j \<and> ?cps ! j \<le> 0xFF)
              \<or> ?cps ! j \<in> set (map fst UNICODE_TO_WINDOWS_1252)) \<longrightarrow>
          (\<exists>h. encode s ?F
                  = Inl (Error (lit ''Character '' @ lit [CHR 0x27] @ code_units (nat c)
                      @ lit [CHR 0x27] @ lit '' (U+'' @ lit h
                      @ lit '') cannot be encoded in Windows-1252''))
               \<and> 4 \<le> length h \<and> set h \<subseteq> set ''0123456789ABCDEF''
               \<and> int (read_digits 16 h) = c \<and> (length h = 4 \<or> hd h \<noteq> CHR ''0''))"
  proof
    assume earlier: "\<forall>j < k. ?cps ! j < 0x80 \<or> (0xA0 \<le> ?cps ! j \<and> ?cps ! j \<le> 0xFF)
              \<or> ?cps ! j \<in> set (map fst UNICODE_TO_WINDOWS_1252)"
    have ok: "\<forall>x \<in> set (take k ?cps). \<exists>b. encode_code_point fatal x = Inr b"
    proof
      fix x assume "x \<in> set (take k ?cps)"
      then obtain j where "j < k" "x = ?cps ! j"
        using assms(1) by (auto simp: in_set_conv_nth)
      with earlier have "x < 0x80 \<or> (0xA0 \<le> x \<and> x \<le> 0xFF)
          \<or> x \<in> set (map fst UNICODE_TO_WINDOWS_1252)"
        by blast
      then show "\<exists>b. encode_code_point fatal x = Inr b"
        by (rule encodable_Inr)
    qed
    have split: "?cps = take k ?cps @ c # drop (Suc k) ?cps"
      using assms(1,2) by (simp add: id_take_nth_drop)
    have "encode_all fatal (take k ?cps @ c # drop (Suc k) ?cps) =
        Inl (Error (lit ''Character '' @ lit [CHR 0x27] @ code_units (nat c) @ lit [CHR 0x27]
          @ lit '' (U+'' @ lit ?h @ lit '') cannot be encoded in Windows-1252''))"
      using ok unencodable_result(2) [OF assms(3,4,5) le] by (rule encode_all_first_error)
    with split have "encode s ?F =
        Inl (Error (lit ''Character '' @ lit [CHR 0x27] @ code_units (nat c) @ lit [CHR 0x27]
          @ lit '' (U+'' @ lit ?h @ lit '') cannot be encoded in Windows-1252''))"
      by (simp add: encode_eq encode_mode_def)
    moreover from hex4 [OF pos] pos have "4 \<le> length ?h \<and> set ?h \<subseteq> set ''0123456789ABCDEF''
               \<and> int (read_digits 16 ?h) = c \<and> (length ?h = 4 \<or> hd ?h \<noteq> CHR ''0'')"
      by simp
    ultimately show "\<exists>h. encode s ?F
                  = Inl (Error (lit ''Character '' @ lit [CHR 0x27] @ code_units (nat c)
                      @ lit [CHR 0x27] @ lit '' (U+'' @ lit h
                      @ lit '') cannot be encoded in Windows-1252''))
               \<and> 4 \<le> length h \<and> set h \<subseteq> set ''0123456789ABCDEF''
               \<and> int (read_digits 16 h) = c \<and> (length h = 4 \<or> hd h \<noteq> CHR ''0'')"
      by blast
  qed
next
  let ?R = "Some \<lparr>mode = Some replacement\<rparr>"
  let ?cps = "code_points s"
  from assms(1,2) have "c \<in> set ?cps" by simp
  with code_points_range have le: "c \<le> 0x10FFFF" by blast
  from encode_all_replacement obtain bs where bs: "encode_all replacement ?cps = Inr bs"
    by blast
  then have l2: "list_all2 (\<lambda>c x. \<exists>b. encode_code_point replacement c = Inr b
      \<and> x = word_of_int b) ?cps bs"
    by (simp add: encode_all_Inr_iff)
  have len: "length bs = length ?cps" using list_all2_lengthD [OF l2] by simp
  have "\<exists>b. encode_code_point replacement (?cps ! k) = Inr b \<and> bs ! k = word_of_int b"
    by (rule list_all2_nthD [OF l2 assms(1)])
  with assms(2) unencodable_result(1) [OF assms(3,4,5) le] have "bs ! k = 0x3F" by auto
  with bs len show "\<exists>bs. encode s ?R = Inr bs \<and> length bs = length ?cps \<and> bs ! k = 0x3F"
    by (simp add: encode_eq encode_mode_def)
next
  show "\<forall>d. (0x80 \<le> d \<and> d \<le> 0x9F) \<or> (0xD800 \<le> d \<and> d \<le> 0xDFFF) \<or> 0x10000 \<le> d \<longrightarrow>
          \<not> d < 0x80 \<and> \<not> (0xA0 \<le> d \<and> d \<le> 0xFF)
          \<and> d \<notin> set (map fst UNICODE_TO_WINDOWS_1252)"
    using encode_table_keys by fastforce
qed

theorem encode_unencodable_witness:
  "(1 :: nat) < length (code_points [0x41, 0xD83D, 0xDE0A, 0x42])
   \<and> (0x1F60A :: int) = code_points [0x41, 0xD83D, 0xDE0A, 0x42] ! 1
   \<and> \<not> (0x1F60A :: int) < 0x80 \<and> \<not> (0xA0 \<le> (0x1F60A :: int) \<and> (0x1F60A :: int) \<le> 0xFF)
   \<and> (0x1F60A :: int) \<notin> set (map fst UNICODE_TO_WINDOWS_1252)
   \<and> code_points [0x41, 0xD83D, 0xDE0A, 0x42] ! 0 < 0x80
   \<and> encode [0x41, 0xD83D, 0xDE0A, 0x42] (Some \<lparr>mode = Some fatal\<rparr>)
       = Inl (Error (lit ''Character '' @ lit [CHR 0x27] @ [0xD83D, 0xDE0A] @ lit [CHR 0x27]
           @ lit '' (U+1F60A) cannot be encoded in Windows-1252''))
   \<and> read_digits 16 ''1F60A'' = 0x1F60A
   \<and> encode [0x41, 0xD83D, 0xDE0A, 0x42] (Some \<lparr>mode = Some replacement\<rparr>)
       = Inr [0x41, 0x3F, 0x42]
   \<and> ((0x80 :: int) \<le> 0x81 \<and> (0x81 :: int) \<le> 0x9F)
   \<and> (0x81 :: int) \<notin> set (map fst UNICODE_TO_WINDOWS_1252)"
proof -
  have k: "(0x80 :: int) \<le> 0x81 \<and> (0x81 :: int) \<le> 0x9F"
    "(0x81 :: int) \<notin> set (map fst UNICODE_TO_WINDOWS_1252)"
    by (simp_all add: UNICODE_TO_WINDOWS_1252_def)
  have cp: "code_points [0x41, 0xD83D, 0xDE0A, 0x42] = [0x41, 0x1F60A, 0x42]"
    by (simp add: is_high_surrogate_def is_low_surrogate_def)
  have h: "(1 :: nat) < length (code_points [0x41, 0xD83D, 0xDE0A, 0x42])"
    "(0x1F60A :: int) = code_points [0x41, 0xD83D, 0xDE0A, 0x42] ! 1"
    "\<not> (0x1F60A :: int) < 0x80" "\<not> (0xA0 \<le> (0x1F60A :: int) \<and> (0x1F60A :: int) \<le> 0xFF)"
    "(0x1F60A :: int) \<notin> set (map fst UNICODE_TO_WINDOWS_1252)"
    "code_points [0x41, 0xD83D, 0xDE0A, 0x42] ! 0 < 0x80"
    unfolding cp by (simp_all add: UNICODE_TO_WINDOWS_1252_def)
  have f: "encode [0x41, 0xD83D, 0xDE0A, 0x42] (Some \<lparr>mode = Some fatal\<rparr>)
       = Inl (Error (lit ''Character '' @ lit [CHR 0x27] @ [0xD83D, 0xDE0A] @ lit [CHR 0x27]
           @ lit '' (U+1F60A) cannot be encoded in Windows-1252''))"
    by (simp add: encode_eval)
  have r: "encode [0x41, 0xD83D, 0xDE0A, 0x42] (Some \<lparr>mode = Some replacement\<rparr>)
       = Inr [0x41, 0x3F, 0x42]"
    by (simp add: encode_eval)
  have d: "read_digits 16 ''1F60A'' = 0x1F60A"
    by (simp add: read_digits_def digit_value_def)
  note t = encode_unencodable [OF h(1-5)]
  from t h f r d k show ?thesis by blast
qed

section \<open>Surrogates\<close>

text \<open>
  C5: \<open>encode\<close> in replacement mode returns, for every string, as many bytes as the
  string has code points. A high surrogate followed by a low surrogate at the head of a
  string is one step: one byte 0x3F in replacement mode, followed by the bytes of the rest,
  and an error in fatal mode. A surrogate at the head that is not the first half of such a
  pair takes one unit: one byte 0x3F in replacement mode, followed by the bytes of the rest,
  and an error in fatal mode. The pair of U+1F60A alone gives the single byte 0x3F.
\<close>

theorem encode_by_code_point:
  "(\<exists>bs. encode s (Some \<lparr>mode = Some replacement\<rparr>) = Inr bs
        \<and> length bs = length (code_points s))
   \<and> (is_high_surrogate h \<and> is_low_surrogate l \<longrightarrow>
        (\<exists>bs. encode rest (Some \<lparr>mode = Some replacement\<rparr>) = Inr bs
            \<and> encode (h # l # rest) (Some \<lparr>mode = Some replacement\<rparr>) = Inr (0x3F # bs))
        \<and> (\<exists>e. encode (h # l # rest) (Some \<lparr>mode = Some fatal\<rparr>) = Inl e))
   \<and> ((is_high_surrogate u \<or> is_low_surrogate u)
        \<and> \<not> (is_high_surrogate u \<and> rest \<noteq> [] \<and> is_low_surrogate (hd rest)) \<longrightarrow>
        (\<exists>bs. encode rest (Some \<lparr>mode = Some replacement\<rparr>) = Inr bs
            \<and> encode (u # rest) (Some \<lparr>mode = Some replacement\<rparr>) = Inr (0x3F # bs))
        \<and> (\<exists>e. encode (u # rest) (Some \<lparr>mode = Some fatal\<rparr>) = Inl e))
   \<and> encode [0xD83D, 0xDE0A] (Some \<lparr>mode = Some replacement\<rparr>) = Inr [0x3F]"
  (is "?A \<and> ?B \<and> ?C \<and> ?D")
proof -
  have A: ?A
  proof -
    from encode_all_replacement obtain bs where
      bs: "encode_all replacement (code_points s) = Inr bs" by blast
    then have "list_all2 (\<lambda>c x. \<exists>b. encode_code_point replacement c = Inr b
        \<and> x = word_of_int b) (code_points s) bs"
      by (simp add: encode_all_Inr_iff)
    from list_all2_lengthD [OF this] bs show ?thesis
      by (simp add: encode_eq encode_mode_def)
  qed
  have B: ?B
  proof
    assume p: "is_high_surrogate h \<and> is_low_surrogate l"
    let ?c = "0x10000 + (uint h - 0xD800) * 0x400 + (uint l - 0xDC00)"
    from p have cp: "code_points ([h, l] @ rest) = ?c # code_points rest" by simp
    from p have "(0x80 \<le> ?c \<and> ?c \<le> 0x9F) \<or> 0xD800 \<le> ?c"
      by (simp add: is_high_surrogate_def is_low_surrogate_def)
    from encode_Cons_unencodable [OF cp this]
    show "(\<exists>bs. encode rest (Some \<lparr>mode = Some replacement\<rparr>) = Inr bs
            \<and> encode (h # l # rest) (Some \<lparr>mode = Some replacement\<rparr>) = Inr (0x3F # bs))
        \<and> (\<exists>e. encode (h # l # rest) (Some \<lparr>mode = Some fatal\<rparr>) = Inl e)"
      by simp
  qed
  have C: ?C
  proof
    assume p: "(is_high_surrogate u \<or> is_low_surrogate u)
        \<and> \<not> (is_high_surrogate u \<and> rest \<noteq> [] \<and> is_low_surrogate (hd rest))"
    then have cp: "code_points ([u] @ rest) = uint u # code_points rest"
      by (cases rest) auto
    from p have "(0x80 \<le> uint u \<and> uint u \<le> 0x9F) \<or> 0xD800 \<le> uint u"
      by (auto simp: is_high_surrogate_def is_low_surrogate_def)
    from encode_Cons_unencodable [OF cp this]
    show "(\<exists>bs. encode rest (Some \<lparr>mode = Some replacement\<rparr>) = Inr bs
            \<and> encode (u # rest) (Some \<lparr>mode = Some replacement\<rparr>) = Inr (0x3F # bs))
        \<and> (\<exists>e. encode (u # rest) (Some \<lparr>mode = Some fatal\<rparr>) = Inl e)"
      by simp
  qed
  have D: ?D
    by (simp add: encode_eq encode_mode_def is_high_surrogate_def is_low_surrogate_def
        encode_code_point_def UNICODE_TO_WINDOWS_1252_def)
  show ?thesis by (rule conjI [OF A conjI [OF B conjI [OF C D]]])
qed

theorem encode_by_code_point_witness:
  "is_high_surrogate 0xD83D \<and> is_low_surrogate 0xDE0A
   \<and> encode [0x42] (Some \<lparr>mode = Some replacement\<rparr>) = Inr [0x42]
   \<and> encode [0xD83D, 0xDE0A, 0x42] (Some \<lparr>mode = Some replacement\<rparr>) = Inr [0x3F, 0x42]
   \<and> length (code_points [0xD83D, 0xDE0A, 0x42]) = 2
   \<and> \<not> (is_high_surrogate 0xD83D \<and> [0x42 :: 16 word] \<noteq> [] \<and> is_low_surrogate (hd [0x42]))
   \<and> encode [0xD83D, 0x42] (Some \<lparr>mode = Some replacement\<rparr>) = Inr [0x3F, 0x42]
   \<and> is_low_surrogate 0xDC4A \<and> \<not> is_high_surrogate 0xDC4A
   \<and> encode [0xDC4A, 0x42] (Some \<lparr>mode = Some replacement\<rparr>) = Inr [0x3F, 0x42]
   \<and> encode [0xDC4A, 0x42] (Some \<lparr>mode = Some fatal\<rparr>)
       = Inl (Error (lit ''Character '' @ lit [CHR 0x27] @ [0xDC4A] @ lit [CHR 0x27]
           @ lit '' (U+DC4A) cannot be encoded in Windows-1252''))"
proof -
  have e: "is_high_surrogate 0xD83D" "is_low_surrogate 0xDE0A"
    "encode [0x42] (Some \<lparr>mode = Some replacement\<rparr>) = Inr [0x42]"
    "encode [0xD83D, 0xDE0A, 0x42] (Some \<lparr>mode = Some replacement\<rparr>) = Inr [0x3F, 0x42]"
    "\<not> (is_high_surrogate 0xD83D \<and> [0x42 :: 16 word] \<noteq> [] \<and> is_low_surrogate (hd [0x42]))"
    "encode [0xD83D, 0x42] (Some \<lparr>mode = Some replacement\<rparr>) = Inr [0x3F, 0x42]"
    "is_low_surrogate 0xDC4A" "\<not> is_high_surrogate 0xDC4A"
    "encode [0xDC4A, 0x42] (Some \<lparr>mode = Some replacement\<rparr>) = Inr [0x3F, 0x42]"
    by (simp_all add: encode_eq encode_mode_def is_high_surrogate_def is_low_surrogate_def
        encode_code_point_def UNICODE_TO_WINDOWS_1252_def)
  have l: "length (code_points [0xD83D, 0xDE0A, 0x42]) = 2"
    by (simp add: is_high_surrogate_def is_low_surrogate_def)
  have f: "encode [0xDC4A, 0x42] (Some \<lparr>mode = Some fatal\<rparr>)
       = Inl (Error (lit ''Character '' @ lit [CHR 0x27] @ [0xDC4A] @ lit [CHR 0x27]
           @ lit '' (U+DC4A) cannot be encoded in Windows-1252''))"
    by (simp add: encode_eval)
  note t = encode_by_code_point [of "[0xD83D, 0xDE0A, 0x42]" "0xD83D" "0xDE0A" "[0x42]" "0xDC4A"]
  from t e l f show ?thesis by blast
qed

end
